theory Spec2Isabelle
  imports Complex_Main "HOL-Library.AList"
begin

section \<open>Python values shared by both source files\<close>

type_synonym address = string

text \<open>Exceptions that the modelled code can raise.\<close>

datatype error = KeyError string | TypeError

text \<open>
  Python compares a \<open>str\<close> with an \<open>int\<close> as unequal and refuses \<open>len\<close> of an \<open>int\<close>.
  The two kinds of value that meet in \<open>analyze_privacy_score\<close> are kept apart by a datatype.
\<close>

datatype pyval = PyStr string | PyInt int

fun py_len :: "pyval \<Rightarrow> error + int" where
  "py_len (PyStr s) = Inr (int (length s))"
| "py_len (PyInt i) = Inl TypeError"

section \<open>transactionny.py: the address graph and the clustering\<close>

subsection \<open>Normalised transaction data\<close>

text \<open>
  An entry of \<open>tx_data['inputs']\<close> or \<open>tx_data['outputs']\<close>. Both kinds carry the address
  under the key \<open>'recipient'\<close>. \<open>None\<close> stands for a missing key (or a null), as
  \<open>dict.get\<close> reports it.
\<close>

record io_entry =
  recipient :: "string option"
  entry_value :: "int option"

record tx_data =
  tx_inputs :: "io_entry list option"
  tx_outputs :: "io_entry list option"

text \<open>
  An element of Blockstream's \<open>vout\<close> list, and lines 130--136 of \<open>get_transaction_data\<close>
  that normalise it. Only the fields read there are kept.
\<close>

record vout_status =
  spent :: "bool option"
  spent_txid :: "string option"

record vout =
  scriptpubkey_address :: "string option"
  vout_value :: "int option"
  vout_status :: "vout_status option"

record output_dict =
  od_recipient :: string
  od_value :: int
  od_is_spent :: bool
  od_spending_tx_hash :: "string option"

definition normalize_vout :: "vout \<Rightarrow> error + output_dict" where
  "normalize_vout out =
     (let r = (case scriptpubkey_address out of Some a \<Rightarrow> a | None \<Rightarrow> ''N/A (script)'')
      in case vout_value out of
           None \<Rightarrow> Inl (KeyError ''value'')
         | Some v \<Rightarrow>
             (let is_spent = (case vout_status out of
                                None \<Rightarrow> False
                              | Some st \<Rightarrow> (case spent st of None \<Rightarrow> False | Some b \<Rightarrow> b))
              in case vout_status out of
                   None \<Rightarrow> Inl (KeyError ''status'')
                 | Some st \<Rightarrow>
                     Inr \<lparr>od_recipient = r, od_value = v, od_is_spent = is_spent,
                          od_spending_tx_hash =
                            (if (case spent st of None \<Rightarrow> False | Some b \<Rightarrow> b)
                             then spent_txid st else None)\<rparr>))"

definition to_io_entry :: "output_dict \<Rightarrow> io_entry" where
  "to_io_entry d = \<lparr>recipient = Some (od_recipient d), entry_value = Some (od_value d)\<rparr>"

subsection \<open>The directed graph\<close>

text \<open>
  \<open>self.transaction_graph = nx.DiGraph()\<close>: a dictionary of nodes with their attribute
  \<open>node_type\<close>, and a dictionary of edges keyed by the ordered pair of endpoints with the
  attributes \<open>tx_hash\<close> and \<open>value\<close>. Both keep insertion order, and storing under a
  key that is present replaces the value in place, which is \<open>AList.update\<close>.
\<close>

record digraph =
  nodes :: "(address \<times> string option) list"
  edges :: "((address \<times> address) \<times> (string \<times> int)) list"

definition empty_graph :: digraph where
  "empty_graph = \<lparr>nodes = [], edges = []\<rparr>"

definition add_node :: "address \<Rightarrow> string \<Rightarrow> digraph \<Rightarrow> digraph" where
  "add_node n node_type g = g\<lparr>nodes := AList.update n (Some node_type) (nodes g)\<rparr>"

definition ensure_node :: "address \<Rightarrow> (address \<times> string option) list \<Rightarrow> (address \<times> string option) list" where
  "ensure_node n ns = (if map_of ns n = None then ns @ [(n, None)] else ns)"

text \<open>\<open>DiGraph.add_edge\<close> creates missing endpoints and updates the attributes of the edge.\<close>

definition add_edge :: "address \<Rightarrow> address \<Rightarrow> string \<Rightarrow> int \<Rightarrow> digraph \<Rightarrow> digraph" where
  "add_edge u v tx_hash val g =
     g\<lparr>nodes := ensure_node v (ensure_node u (nodes g)),
       edges := AList.update (u, v) (tx_hash, val) (edges g)\<rparr>"

text \<open>The test \<open>recipient and recipient != "nonstandard"\<close>.\<close>

definition accepted :: "string option \<Rightarrow> bool" where
  "accepted r = (case r of None \<Rightarrow> False | Some s \<Rightarrow> s \<noteq> [] \<and> s \<noteq> ''nonstandard'')"

definition get_list :: "'a list option \<Rightarrow> 'a list" where
  "get_list l = (case l of None \<Rightarrow> [] | Some xs \<Rightarrow> xs)"

definition get_value :: "io_entry \<Rightarrow> int" where
  "get_value e = (case entry_value e of None \<Rightarrow> 0 | Some v \<Rightarrow> v)"

definition add_typed_node :: "string \<Rightarrow> io_entry \<Rightarrow> digraph \<Rightarrow> digraph" where
  "add_typed_node node_type e g =
     (case recipient e of
        None \<Rightarrow> g
      | Some r \<Rightarrow> if accepted (Some r) then add_node r node_type g else g)"

definition add_out_edge :: "string \<Rightarrow> address \<Rightarrow> io_entry \<Rightarrow> digraph \<Rightarrow> digraph" where
  "add_out_edge tx_hash in_recipient out g =
     (case recipient out of
        None \<Rightarrow> g
      | Some out_recipient \<Rightarrow>
          if accepted (Some out_recipient)
          then add_edge in_recipient out_recipient tx_hash (get_value out) g else g)"

definition add_in_edges :: "string \<Rightarrow> io_entry list \<Rightarrow> io_entry \<Rightarrow> digraph \<Rightarrow> digraph" where
  "add_in_edges tx_hash outputs inp g =
     (case recipient inp of
        None \<Rightarrow> g
      | Some in_recipient \<Rightarrow>
          if accepted (Some in_recipient)
          then fold (add_out_edge tx_hash in_recipient) outputs g else g)"

text \<open>
  Lines 263--286 of \<open>analyze_bitcoin_transaction\<close>: the three loops that build the graph
  from the fetched \<open>tx_data\<close>. The edges carry the \<open>tx_hash\<close> argument of the call.
\<close>

definition add_transaction :: "string \<Rightarrow> tx_data \<Rightarrow> digraph \<Rightarrow> digraph" where
  "add_transaction tx_hash tx g =
     (let inputs = get_list (tx_inputs tx);
          outputs = get_list (tx_outputs tx);
          g1 = fold (add_typed_node ''input'') inputs g;
          g2 = fold (add_typed_node ''output'') outputs g1
      in fold (add_in_edges tx_hash outputs) inputs g2)"

subsection \<open>Connected components\<close>

text \<open>
  \<open>nx.node_connected_component(G.to_undirected(), address)\<close>: breadth-first search, level
  by level, over the neighbours in either direction. The undirected copy has the nodes of
  the graph, so the neighbours are taken among them.
\<close>

definition adj :: "digraph \<Rightarrow> address \<Rightarrow> address list" where
  "adj g v = [w \<leftarrow> map fst (nodes g).
                map_of (edges g) (v, w) \<noteq> None \<or> map_of (edges g) (w, v) \<noteq> None]"

definition next_level :: "digraph \<Rightarrow> address list \<Rightarrow> address list \<Rightarrow> address list" where
  "next_level g seen thislevel =
     remdups [w \<leftarrow> concat (map (adj g) thislevel). w \<notin> set seen]"

function plain_bfs :: "digraph \<Rightarrow> address list \<Rightarrow> address list \<Rightarrow> address list" where
  "plain_bfs g seen thislevel =
     (if thislevel = [] then seen
      else plain_bfs g (seen @ next_level g seen thislevel) (next_level g seen thislevel))"
  by pat_completeness auto

termination plain_bfs
proof (relation "measure (\<lambda>(g, seen, thislevel).
          card (set (map fst (nodes g)) - set seen) + (if thislevel = [] then 0 else 1))")
  show "wf (measure (\<lambda>(g, seen, thislevel).
          card (set (map fst (nodes g)) - set seen) + (if thislevel = [] then 0 else 1)))"
    by simp
next
  fix g :: digraph and seen thislevel :: "address list"
  assume ne: "thislevel \<noteq> []"
  let ?new = "next_level g seen thislevel"
  let ?N = "set (map fst (nodes g))"
  show "((g, seen @ ?new, ?new), (g, seen, thislevel))
        \<in> measure (\<lambda>(g, seen, thislevel).
             card (set (map fst (nodes g)) - set seen) + (if thislevel = [] then 0 else 1))"
  proof (cases "?new = []")
    case True
    with ne show ?thesis by simp
  next
    case False
    then obtain w where w: "w \<in> set ?new" by (cases ?new) auto
    have "set ?new \<subseteq> ?N - set seen"
      by (auto simp: next_level_def adj_def)
    with w have wN: "w \<in> ?N - set seen" by blast
    have "?N - set (seen @ ?new) \<subset> ?N - set seen"
      using w wN by auto
    then have "card (?N - set (seen @ ?new)) < card (?N - set seen)"
      by (intro psubset_card_mono) auto
    with ne False show ?thesis by simp
  qed
qed

definition node_connected_component :: "digraph \<Rightarrow> address \<Rightarrow> address list" where
  "node_connected_component g n = plain_bfs g [n] [n]"

subsection \<open>The analyzer and \<open>cluster_addresses\<close>\<close>

text \<open>The two attributes of \<open>CryptocurrencyPrivacyAnalyzer\<close> that outlive a call.\<close>

record analyzer =
  transaction_graph :: digraph
  address_clusters :: "(address \<times> int) list"

definition new_analyzer :: analyzer where
  "new_analyzer = \<lparr>transaction_graph = empty_graph, address_clusters = []\<rparr>"

definition analyze_bitcoin_transaction :: "string \<Rightarrow> tx_data \<Rightarrow> analyzer \<Rightarrow> analyzer" where
  "analyze_bitcoin_transaction tx_hash tx a =
     a\<lparr>transaction_graph := add_transaction tx_hash tx (transaction_graph a)\<rparr>"

text \<open>
  The variables of the loop of \<open>cluster_addresses\<close>: the locals \<open>clusters\<close> and
  \<open>cluster_id\<close>, and \<open>self.address_clusters\<close>, which the loop writes.
\<close>

record cluster_loop =
  clusters :: "(int \<times> address list) list"
  cluster_id :: int
  registry :: "(address \<times> int) list"

text \<open>
  The inner loop over the component with its flag \<open>new_cluster_found\<close>: the search stops
  with \<open>False\<close> at the first member that has an id, and every other member sets \<open>True\<close>.
\<close>

fun new_cluster_found :: "(address \<times> int) list \<Rightarrow> address list \<Rightarrow> bool \<Rightarrow> bool" where
  "new_cluster_found reg [] flag = flag"
| "new_cluster_found reg (comp_addr # rest) flag =
     (if map_of reg comp_addr \<noteq> None then False else new_cluster_found reg rest True)"

definition assign_all :: "int \<Rightarrow> address list \<Rightarrow> (address \<times> int) list \<Rightarrow> (address \<times> int) list" where
  "assign_all cid component reg = fold (\<lambda>addr r. AList.update addr cid r) component reg"

definition cluster_step :: "digraph \<Rightarrow> address \<Rightarrow> cluster_loop \<Rightarrow> cluster_loop" where
  "cluster_step g address s =
     (if map_of (registry s) address \<noteq> None then s
      else if map_of (nodes g) address \<noteq> None then
        (let component = node_connected_component g address
         in if new_cluster_found (registry s) component False
            then \<lparr>clusters = AList.update (cluster_id s) component (clusters s),
                  cluster_id = cluster_id s + 1,
                  registry = assign_all (cluster_id s) component (registry s)\<rparr>
            else s)
      else \<lparr>clusters = AList.update (cluster_id s) [address] (clusters s),
            cluster_id = cluster_id s + 1,
            registry = AList.update address (cluster_id s) (registry s)\<rparr>)"

definition cluster_addresses :: "address list \<Rightarrow> analyzer \<Rightarrow> (int \<times> address list) list \<times> analyzer" where
  "cluster_addresses addresses a =
     (let s = fold (cluster_step (transaction_graph a)) addresses
                \<lparr>clusters = [], cluster_id = 0, registry = address_clusters a\<rparr>
      in (clusters s, a\<lparr>address_clusters := registry s\<rparr>))"

text \<open>A session: transactions analysed and clustering calls, in any order.\<close>

datatype call = Analyze string tx_data | Cluster "address list"

fun perform :: "call \<Rightarrow> analyzer \<Rightarrow> analyzer" where
  "perform (Analyze tx_hash tx) a = analyze_bitcoin_transaction tx_hash tx a"
| "perform (Cluster addresses) a = snd (cluster_addresses addresses a)"

subsection \<open>The cluster size of \<open>analyze_privacy_score\<close>\<close>

text \<open>
  Lines 447--454. The loop runs over the items of \<open>self.address_clusters\<close>, whose keys are
  addresses and whose values are ids: \<open>cid\<close> is bound to an address, \<open>cluster_members\<close>
  to an id.
\<close>

fun cluster_size_loop :: "(address \<times> int) list \<Rightarrow> int \<Rightarrow> int \<Rightarrow> error + int" where
  "cluster_size_loop [] address_cluster_id cluster_size = Inr cluster_size"
| "cluster_size_loop ((cid, cluster_members) # rest) address_cluster_id cluster_size =
     (if PyStr cid = PyInt address_cluster_id then py_len (PyInt cluster_members)
      else cluster_size_loop rest address_cluster_id cluster_size)"

definition cluster_size_of :: "analyzer \<Rightarrow> address \<Rightarrow> error + int" where
  "cluster_size_of a address =
     (case map_of (address_clusters a) address of
        None \<Rightarrow> Inr 0
      | Some address_cluster_id \<Rightarrow> cluster_size_loop (address_clusters a) address_cluster_id 0)"

subsection \<open>The addresses handed to the clustering\<close>

text \<open>
  Lines 432--443 of \<open>analyze_privacy_score\<close>: every recipient that is present and not empty,
  of the inputs and then the outputs of each fetched transaction, is added to a set, and the
  set is listed for \<open>cluster_addresses\<close>. Python leaves the order of that list open.
\<close>

definition add_recipient :: "io_entry \<Rightarrow> address list \<Rightarrow> address list" where
  "add_recipient e s =
     (case recipient e of None \<Rightarrow> s | Some r \<Rightarrow> if r \<noteq> [] then List.insert r s else s)"

definition all_related_addresses :: "tx_data list \<Rightarrow> address list" where
  "all_related_addresses txs =
     fold (\<lambda>tx s. fold add_recipient (get_list (tx_outputs tx))
                     (fold add_recipient (get_list (tx_inputs tx)) s)) txs []"

subsection \<open>Quantities in which the properties of the graph are stated\<close>

text \<open>The addresses of a list of entries that pass the test of the graph builder.\<close>

definition accepted_addresses :: "io_entry list \<Rightarrow> address set" where
  "accepted_addresses es =
     set (concat (map (\<lambda>e. case recipient e of
                             None \<Rightarrow> []
                           | Some a \<Rightarrow> if accepted (Some a) then [a] else []) es))"

definition last_value :: "io_entry list \<Rightarrow> address \<Rightarrow> int" where
  "last_value outs b = get_value (last [out \<leftarrow> outs. recipient out = Some b])"

subsection \<open>Example transactions\<close>

definition tx_a_to_b :: tx_data where
  "tx_a_to_b = \<lparr>tx_inputs = Some [\<lparr>recipient = Some ''A'', entry_value = Some 5\<rparr>],
                tx_outputs = Some [\<lparr>recipient = Some ''B'', entry_value = Some 4\<rparr>]\<rparr>"

definition tx_a_to_b_again :: tx_data where
  "tx_a_to_b_again = \<lparr>tx_inputs = Some [\<lparr>recipient = Some ''A'', entry_value = Some 9\<rparr>],
                tx_outputs = Some [\<lparr>recipient = Some ''B'', entry_value = Some 7\<rparr>]\<rparr>"

text \<open>
  An output of Blockstream without \<open>scriptpubkey_address\<close>, and the transaction data with
  one input from \<open>A\<close> and that output as \<open>get_transaction_data\<close> normalises it.
\<close>

definition nonstandard_vout :: vout where
  "nonstandard_vout =
     \<lparr>scriptpubkey_address = None, vout_value = Some 0,
      vout_status = Some \<lparr>spent = Some False, spent_txid = None\<rparr>\<rparr>"

definition tx_script_output :: tx_data where
  "tx_script_output =
     \<lparr>tx_inputs = Some [\<lparr>recipient = Some ''A'', entry_value = Some 5\<rparr>],
      tx_outputs = Some [\<lparr>recipient = Some ''N/A (script)'', entry_value = Some 0\<rparr>]\<rparr>"

section \<open>addressny.py: the privacy score\<close>

subsection \<open>Transaction records\<close>

text \<open>
  The dictionaries that \<open>calculate_privacy_score\<close> reads. A field is \<open>None\<close> when the key is
  missing. \<open>inp['sender']\<close>, \<open>out['recipient']\<close> and \<open>out['value']\<close> are subscripted and
  raise \<open>KeyError\<close> on a missing key; every other field is read with \<open>get\<close> or behind an
  \<open>in\<close> test.
\<close>

record input_entry =
  sender :: "string option"
  in_script_type :: "string option"

record output_entry =
  out_recipient :: "string option"
  out_value :: "int option"
  out_script_type :: "string option"

record transaction =
  inputs :: "input_entry list option"
  outputs :: "output_entry list option"
  timestamp :: "int option"
  input_count :: "int option"
  output_count :: "int option"
  tx_size :: "int option"

text \<open>
  The values stored under \<open>details\<close>. Python's floats are modelled as exact rationals
  throughout, and a factor that the code sets to the integer 50 is the rational 50.
\<close>

datatype detail = DInt int | DNum rat | DBool bool | DList "string list"

record report =
  factors :: "(string \<times> rat) list"
  recommendations :: "string list"
  details :: "(string \<times> detail) list"

record result = report +
  score :: rat

subsection \<open>Factor 1: address reuse\<close>

record usage =
  unique_addresses :: "string list"
  total_interactions :: int
  address_usage :: "(string \<times> int) list"

definition get_count :: "('k \<times> int) list \<Rightarrow> 'k \<Rightarrow> int" where
  "get_count m k = (case map_of m k of None \<Rightarrow> 0 | Some c \<Rightarrow> c)"

definition note_address :: "string \<Rightarrow> usage \<Rightarrow> usage" where
  "note_address addr u =
     (if addr \<noteq> ''N/A (script)''
      then \<lparr>unique_addresses = List.insert addr (unique_addresses u),
            total_interactions = total_interactions u + 1,
            address_usage = AList.update addr (get_count (address_usage u) addr + 1) (address_usage u)\<rparr>
      else u)"

fun scan_inputs :: "input_entry list \<Rightarrow> usage \<Rightarrow> error + usage" where
  "scan_inputs [] u = Inr u"
| "scan_inputs (inp # rest) u =
     (case sender inp of
        None \<Rightarrow> Inl (KeyError ''sender'')
      | Some addr \<Rightarrow> scan_inputs rest (note_address addr u))"

fun scan_outputs :: "output_entry list \<Rightarrow> usage \<Rightarrow> error + usage" where
  "scan_outputs [] u = Inr u"
| "scan_outputs (out # rest) u =
     (case out_recipient out of
        None \<Rightarrow> Inl (KeyError ''recipient'')
      | Some addr \<Rightarrow> scan_outputs rest (note_address addr u))"

fun scan_transactions :: "transaction list \<Rightarrow> usage \<Rightarrow> error + usage" where
  "scan_transactions [] u = Inr u"
| "scan_transactions (tx # rest) u =
     (case (case inputs tx of None \<Rightarrow> Inr u | Some ins \<Rightarrow> scan_inputs ins u) of
        Inl e \<Rightarrow> Inl e
      | Inr u1 \<Rightarrow>
          (case (case outputs tx of None \<Rightarrow> Inr u1 | Some outs \<Rightarrow> scan_outputs outs u1) of
             Inl e \<Rightarrow> Inl e
           | Inr u2 \<Rightarrow> scan_transactions rest u2))"

definition reuse_ratio :: "usage \<Rightarrow> rat" where
  "reuse_ratio u = of_nat (length (unique_addresses u)) / of_int (max (total_interactions u) 1)"

fun digits_of :: "nat \<Rightarrow> string" where
  "digits_of n =
     (if n < 10 then [char_of (48 + n)] else digits_of (n div 10) @ [char_of (48 + n mod 10)])"

definition str_int :: "int \<Rightarrow> string" where
  "str_int i = (if i < 0 then CHR ''-'' # digits_of (nat (- i)) else digits_of (nat i))"

definition address_block :: "usage \<Rightarrow> string \<Rightarrow> report \<Rightarrow> report" where
  "address_block u target_address r =
     (let target_reuse = get_count (address_usage u) target_address
      in \<lparr>factors = AList.update ''address_diversity'' (min (reuse_ratio u * 100) 100) (factors r),
           recommendations = recommendations r
             @ (if reuse_ratio u < 1 / 2
                then [''Consider using a new address for each transaction to improve privacy'']
                else [])
             @ (if target_reuse > 5
                then [''Target address used '' @ str_int target_reuse
                        @ '' times - high reuse reduces privacy'']
                else []),
           details =
             AList.update ''total_interactions'' (DInt (total_interactions u))
               (AList.update ''unique_addresses'' (DInt (int (length (unique_addresses u))))
                 (AList.update ''address_reuse_count'' (DInt target_reuse) (details r)))\<rparr>)"

subsection \<open>Factor 2: timing\<close>

text \<open>\<open>[tx['timestamp'] for tx in transactions if tx.get('timestamp')]\<close>: 0 is falsy.\<close>

definition timestamps_of :: "transaction list \<Rightarrow> int list" where
  "timestamps_of transactions =
     List.map_filter
       (\<lambda>tx. case timestamp tx of None \<Rightarrow> None | Some t \<Rightarrow> if t \<noteq> 0 then Some t else None)
       transactions"

definition intervals_of :: "int list \<Rightarrow> int list" where
  "intervals_of timestamps =
     map (\<lambda>i. timestamps ! (i + 1) - timestamps ! i) [0 ..< length timestamps - 1]"

definition avg_interval :: "int list \<Rightarrow> rat" where
  "avg_interval intervals = of_int (sum_list intervals) / of_nat (length intervals)"

definition regular_pattern :: "int list \<Rightarrow> rat" where
  "regular_pattern intervals =
     of_nat (length [interval \<leftarrow> intervals.
                       \<bar>of_int interval - avg_interval intervals\<bar> < 3600])
       / of_nat (length intervals)"

definition timing_block :: "transaction list \<Rightarrow> report \<Rightarrow> report" where
  "timing_block transactions r =
     (let timestamps = timestamps_of transactions
      in if length timestamps > 1
         then (let intervals = intervals_of (sort timestamps)
               in \<lparr>factors = AList.update ''timing_randomness''
                                ((1 - regular_pattern intervals) * 100) (factors r),
                    recommendations = recommendations r
                      @ (if regular_pattern intervals > 7 / 10
                         then [''Vary transaction timing to avoid predictable patterns'']
                         else []),
                    details =
                      AList.update ''regular_timing_pattern''
                          (DBool (regular_pattern intervals > 7 / 10))
                        (AList.update ''avg_time_between_tx''
                          (DNum (avg_interval intervals / 3600)) (details r))\<rparr>)
         else r\<lparr>factors := AList.update ''timing_randomness'' 50 (factors r),
                details := AList.update ''avg_time_between_tx'' (DInt 0) (details r)\<rparr>)"

subsection \<open>Factor 3: amounts\<close>

fun output_values :: "output_entry list \<Rightarrow> error + int list" where
  "output_values [] = Inr []"
| "output_values (out # rest) =
     (case out_value out of
        None \<Rightarrow> Inl (KeyError ''value'')
      | Some v \<Rightarrow> (case output_values rest of Inl e \<Rightarrow> Inl e | Inr vs \<Rightarrow> Inr (v # vs)))"

fun collect_amounts :: "transaction list \<Rightarrow> int list \<Rightarrow> error + int list" where
  "collect_amounts [] amounts = Inr amounts"
| "collect_amounts (tx # rest) amounts =
     (case outputs tx of
        None \<Rightarrow> collect_amounts rest amounts
      | Some outs \<Rightarrow>
          (case output_values outs of
             Inl e \<Rightarrow> Inl e
           | Inr vs \<Rightarrow> collect_amounts rest (amounts @ vs)))"

definition round_amounts :: "int list \<Rightarrow> nat" where
  "round_amounts amounts = length [amount \<leftarrow> amounts. amount mod 100000 = 0]"

definition amount_counts :: "int list \<Rightarrow> (int \<times> int) list" where
  "amount_counts amounts =
     fold (\<lambda>amount m. AList.update amount (get_count m amount + 1) m) amounts []"

definition amount_block :: "int list \<Rightarrow> report \<Rightarrow> report" where
  "amount_block amounts r =
     (if amounts \<noteq> []
      then (let ratio = (of_nat (round_amounts amounts) / of_nat (length amounts) :: rat);
                repeated_amounts = length [c \<leftarrow> map snd (amount_counts amounts). c > 1]
            in \<lparr>factors = AList.update ''amount_diversity'' (max 0 (100 - ratio * 100)) (factors r),
                 recommendations = recommendations r
                   @ (if ratio > 3 / 10
                      then [''Avoid round number amounts to improve transaction privacy'']
                      else []),
                 details =
                   AList.update ''repeated_amounts'' (DInt (int repeated_amounts))
                     (AList.update ''round_amounts_ratio'' (DNum ratio) (details r))\<rparr>)
      else r\<lparr>factors := AList.update ''amount_diversity'' 50 (factors r),
             details := AList.update ''round_amounts_ratio'' (DInt 0) (details r)\<rparr>)"

subsection \<open>Factor 4: input and output counts\<close>

definition input_counts :: "transaction list \<Rightarrow> int list" where
  "input_counts transactions =
     map (\<lambda>tx. case input_count tx of None \<Rightarrow> 1 | Some c \<Rightarrow> c) transactions"

definition output_counts :: "transaction list \<Rightarrow> int list" where
  "output_counts transactions =
     map (\<lambda>tx. case output_count tx of None \<Rightarrow> 1 | Some c \<Rightarrow> c) transactions"

definition simple_tx_ratio :: "transaction list \<Rightarrow> rat" where
  "simple_tx_ratio transactions =
     of_nat (length [(i, oc) \<leftarrow> zip (input_counts transactions) (output_counts transactions).
                       i = 1 \<and> oc = 2])
       / of_nat (length transactions)"

definition complex_tx_ratio :: "transaction list \<Rightarrow> rat" where
  "complex_tx_ratio transactions =
     of_nat (length [(i, oc) \<leftarrow> zip (input_counts transactions) (output_counts transactions).
                       i > 3 \<or> oc > 3])
       / of_nat (length transactions)"

definition structure_block :: "transaction list \<Rightarrow> report \<Rightarrow> report" where
  "structure_block transactions r =
     \<lparr>factors = AList.update ''transaction_structure''
                  (min (simple_tx_ratio transactions * 100 + 20) 100) (factors r),
      recommendations = recommendations r
        @ (if simple_tx_ratio transactions < 3 / 10
           then [''Consider using simple transaction structures (1 input, 2 outputs) for better privacy'']
           else [])
        @ (if complex_tx_ratio transactions > 3 / 10
           then [''High complexity transactions may stand out - consider simpler patterns'']
           else []),
      details =
        AList.update ''complex_tx_ratio'' (DNum (complex_tx_ratio transactions))
          (AList.update ''simple_tx_ratio'' (DNum (simple_tx_ratio transactions)) (details r))\<rparr>"

subsection \<open>Factor 5: script types\<close>

definition get_script_type :: "string option \<Rightarrow> string" where
  "get_script_type t = (case t of None \<Rightarrow> ''unknown'' | Some s \<Rightarrow> s)"

definition tx_script_types :: "transaction \<Rightarrow> string list \<Rightarrow> string list" where
  "tx_script_types tx script_types =
     (let s1 = (case inputs tx of
                  None \<Rightarrow> script_types
                | Some ins \<Rightarrow>
                    fold (\<lambda>inp s. List.insert (get_script_type (in_script_type inp)) s) ins script_types)
      in case outputs tx of
           None \<Rightarrow> s1
         | Some outs \<Rightarrow>
             fold (\<lambda>out s. List.insert (get_script_type (out_script_type out)) s) outs s1)"

text \<open>
  \<open>list(script_types)\<close> lists a set, in an order that Python leaves open; the model lists
  the types with the most recent first.
\<close>

definition script_block :: "transaction list \<Rightarrow> report \<Rightarrow> report" where
  "script_block transactions r =
     (let script_types = fold tx_script_types transactions []
      in r\<lparr>factors := AList.update ''script_diversity''
                          (min (of_nat (length script_types) * 25) 100) (factors r),
            details := AList.update ''script_types_used'' (DList script_types) (details r)\<rparr>)"

subsection \<open>Factor 6: sizes\<close>

definition sizes_of :: "transaction list \<Rightarrow> int list" where
  "sizes_of transactions =
     [s \<leftarrow> map (\<lambda>tx. case tx_size tx of None \<Rightarrow> 0 | Some s \<Rightarrow> s) transactions. s > 0]"

definition avg_size :: "int list \<Rightarrow> rat" where
  "avg_size sizes = of_int (sum_list sizes) / of_nat (length sizes)"

definition size_variance :: "int list \<Rightarrow> rat" where
  "size_variance sizes =
     sum_list (map (\<lambda>s. (of_int s - avg_size sizes) ^ 2) sizes) / of_nat (length sizes)"

definition size_block :: "transaction list \<Rightarrow> report \<Rightarrow> report" where
  "size_block transactions r =
     (let sizes = sizes_of transactions
      in if sizes \<noteq> []
         then (let size_consistency = max 0 (100 - (size_variance sizes / avg_size sizes) * 10)
               in r\<lparr>factors := AList.update ''size_consistency'' (min size_consistency 100) (factors r),
                     details := AList.update ''avg_tx_size'' (DNum (avg_size sizes)) (details r)\<rparr>)
         else r\<lparr>factors := AList.update ''size_consistency'' 50 (factors r)\<rparr>)"

subsection \<open>The weighted score\<close>

definition weights :: "(string \<times> rat) list" where
  "weights =
     [(''address_diversity'', 3 / 10), (''timing_randomness'', 2 / 10),
      (''amount_diversity'', 2 / 10), (''transaction_structure'', 15 / 100),
      (''script_diversity'', 1 / 10), (''size_consistency'', 5 / 100)]"

fun weighted_sum :: "(string \<times> rat) list \<Rightarrow> rat \<Rightarrow> error + rat" where
  "weighted_sum [] acc = Inr acc"
| "weighted_sum ((factor, v) # rest) acc =
     (case map_of weights factor of
        None \<Rightarrow> Inl (KeyError factor)
      | Some w \<Rightarrow> weighted_sum rest (acc + v * w))"

text \<open>\<open>round(x, 2)\<close> on an exact value: to the nearest hundredth, a tie to the even one.\<close>

definition round_half_even :: "rat \<Rightarrow> int" where
  "round_half_even x =
     (let f = \<lfloor>x\<rfloor>; d = x - of_int f
      in if d < 1 / 2 then f else if d > 1 / 2 then f + 1 else if even f then f else f + 1)"

definition py_round2 :: "rat \<Rightarrow> rat" where
  "py_round2 x = of_int (round_half_even (x * 100)) / 100"

definition calculate_privacy_score :: "transaction list \<Rightarrow> string \<Rightarrow> error + result" where
  "calculate_privacy_score transactions target_address =
     (if transactions = []
      then Inr \<lparr>factors = [], recommendations = [], details = [], score = 0\<rparr>
      else
        case scan_transactions transactions
               \<lparr>unique_addresses = [], total_interactions = 0, address_usage = []\<rparr> of
          Inl e \<Rightarrow> Inl e
        | Inr u \<Rightarrow>
            (let r1 = address_block u target_address
                        \<lparr>factors = [], recommendations = [], details = []\<rparr>;
                 r2 = timing_block transactions r1
             in case collect_amounts transactions [] of
                  Inl e \<Rightarrow> Inl e
                | Inr amounts \<Rightarrow>
                    (let r3 = amount_block amounts r2;
                         r4 = structure_block transactions r3;
                         r5 = script_block transactions r4;
                         r6 = size_block transactions r5
                     in case weighted_sum (factors r6) 0 of
                          Inl e \<Rightarrow> Inl e
                        | Inr weighted_score \<Rightarrow>
                            Inr \<lparr>factors = factors r6, recommendations = recommendations r6,
                                 details = details r6, score = py_round2 weighted_score\<rparr>)))"

text \<open>
  The records for which no subscript of \<open>calculate_privacy_score\<close> can fail: every input
  entry has a sender and every output entry has a recipient and a value.
\<close>

definition entries_complete :: "transaction list \<Rightarrow> bool" where
  "entries_complete transactions =
     (\<forall>tx \<in> set transactions.
        (\<forall>inp \<in> set (get_list (inputs tx)). sender inp \<noteq> None) \<and>
        (\<forall>out \<in> set (get_list (outputs tx)). out_recipient out \<noteq> None \<and> out_value out \<noteq> None))"

subsection \<open>Quantities in which the properties are stated\<close>

text \<open>
  The timing factor in the words of the specification: the successive intervals between
  the sorted timestamps, their mean, and the fraction of the intervals that lie less than
  one hour (3600) from the mean. It is compared below with what the code computes by index.
\<close>

definition successive_intervals :: "int list \<Rightarrow> int list" where
  "successive_intervals ts = map (\<lambda>(a, b). b - a) (zip ts (tl ts))"

definition regular_ratio :: "int list \<Rightarrow> rat" where
  "regular_ratio ts =
     (let ivs = successive_intervals (sort ts);
          mean = (of_int (sum_list ivs) / of_nat (length ivs) :: rat)
      in of_nat (length [d \<leftarrow> ivs. \<bar>of_int d - mean\<bar> < 3600]) / of_nat (length ivs))"

text \<open>The factor stored under a name in the outcome of a call, if the call returned.\<close>

definition factor_value :: "error + result \<Rightarrow> string \<Rightarrow> rat option" where
  "factor_value res name = (case res of Inl e \<Rightarrow> None | Inr r \<Rightarrow> map_of (factors r) name)"

subsection \<open>Example records\<close>

text \<open>
  A transaction as \<open>get_transaction_data\<close> of addressny.py returns it: one input, two
  outputs with distinct values that are not round, and none of the keys \<open>input_count\<close> and
  \<open>output_count\<close>, which only the summaries of \<open>get_address_transactions\<close> carry.
\<close>

definition tx_one_in_two_out :: transaction where
  "tx_one_in_two_out =
     \<lparr>inputs = Some [\<lparr>sender = Some ''A'', in_script_type = Some ''p2pkh''\<rparr>],
      outputs = Some [\<lparr>out_recipient = Some ''B'', out_value = Some 12345,
                       out_script_type = Some ''p2pkh''\<rparr>,
                      \<lparr>out_recipient = Some ''C'', out_value = Some 54321,
                       out_script_type = Some ''p2sh''\<rparr>],
      timestamp = Some 1000, input_count = None, output_count = None, tx_size = Some 250\<rparr>"


text \<open>Three transactions at the times 1000, 5000 and 100000.\<close>

definition txs_spread :: "transaction list" where
  "txs_spread =
     [tx_one_in_two_out\<lparr>timestamp := Some 5000\<rparr>, tx_one_in_two_out,
      tx_one_in_two_out\<lparr>timestamp := Some 100000\<rparr>]"

section \<open>Properties of the graph and the clustering\<close>

text \<open>
  C10: the cluster size that the privacy analysis reports is 0 for every address and every
  content of the registry, also for an address that has a cluster id: the loop compares an
  address with an id, which never match, so no exception is raised either.
\<close>

theorem cluster_size_always_zero: "cluster_size_of a address = Inr 0"
proof -
  have "cluster_size_loop reg i 0 = Inr 0" for reg :: "(address \<times> int) list" and i
    by (induction reg) auto
  then show ?thesis
    by (simp add: cluster_size_of_def split: option.split)
qed

subsection \<open>Entries that the graph builder accepts\<close>

lemma accepted_addresses_iff:
  "a \<in> accepted_addresses es \<longleftrightarrow> (\<exists>e \<in> set es. recipient e = Some a \<and> accepted (Some a))"
  by (induction es) (auto simp: accepted_addresses_def split: option.splits if_splits)

lemma accepted_addresses_snoc:
  "accepted_addresses (es @ [e]) =
     accepted_addresses es \<union> (case recipient e of None \<Rightarrow> {}
                               | Some a \<Rightarrow> if accepted (Some a) then {a} else {})"
  by (auto simp: accepted_addresses_iff split: option.splits)

lemma accepted_addresses_Cons:
  "accepted_addresses (e # es) =
     (case recipient e of None \<Rightarrow> {}
      | Some a \<Rightarrow> if accepted (Some a) then {a} else {}) \<union> accepted_addresses es"
  by (auto simp: accepted_addresses_iff split: option.splits)

lemma accepted_addresses_Nil [simp]: "accepted_addresses [] = {}"
  by (simp add: accepted_addresses_def)

lemma last_value_snoc:
  "last_value (outs @ [out]) b =
     (if recipient out = Some b then get_value out else last_value outs b)"
  by (simp add: last_value_def)

subsection \<open>Association lists\<close>

lemma update_same_keys:
  "k \<in> fst ` set al \<Longrightarrow> map fst (AList.update k v al) = map fst al"
  by (simp add: update_keys)

lemma alist_eqI:
  "distinct (map fst xs) \<Longrightarrow> map fst xs = map fst ys \<Longrightarrow> map_of xs = map_of ys \<Longrightarrow> xs = ys"
proof (induction xs arbitrary: ys)
  case Nil
  then show ?case by simp
next
  case (Cons x xs)
  then obtain y ys' where ys: "ys = y # ys'" by (cases ys) auto
  obtain k v where x: "x = (k, v)" by (cases x)
  obtain k' v' where y: "y = (k', v')" by (cases y)
  from Cons.prems ys x y have k: "k' = k" by simp
  have "map_of (x # xs) k = map_of ys k"
    using Cons.prems(3) by (rule arg_cong [where f = "\<lambda>m. m k"])
  with x y k ys have v: "v' = v" by simp
  have keys: "map fst xs = map fst ys'" using Cons.prems(2) ys by simp
  have "map_of xs = map_of ys'"
  proof
    fix z
    show "map_of xs z = map_of ys' z"
    proof (cases "z = k")
      case True
      from Cons.prems(1) x have nk: "k \<notin> set (map fst xs)" by simp
      then have "map_of xs k = None" by (simp add: map_of_eq_None_iff)
      moreover from nk keys have "k \<notin> set (map fst ys')" by simp
      then have "map_of ys' k = None" by (simp add: map_of_eq_None_iff)
      ultimately show ?thesis using True by simp
    next
      case False
      have "map_of (x # xs) z = map_of ys z"
        using Cons.prems(3) by (rule arg_cong [where f = "\<lambda>m. m z"])
      with False ys x y k show ?thesis by simp
    qed
  qed
  moreover from Cons.prems(1) have "distinct (map fst xs)" by simp
  ultimately have "xs = ys'" using keys Cons.IH by blast
  with ys x y k v show ?case by simp
qed

subsection \<open>The edges written by the loops\<close>

lemma add_out_edge_edges:
  "edges (add_out_edge h a out g) =
     (case recipient out of None \<Rightarrow> edges g
      | Some b \<Rightarrow> if accepted (Some b) then AList.update (a, b) (h, get_value out) (edges g)
                  else edges g)"
  by (simp add: add_out_edge_def add_edge_def split: option.splits)

lemma out_loop_edges_map:
  "map_of (edges (fold (add_out_edge h a) outs g)) (a', b) =
     (if a' = a \<and> b \<in> accepted_addresses outs then Some (h, last_value outs b)
      else map_of (edges g) (a', b))"
proof (induction outs rule: rev_induct)
  case Nil
  show ?case by simp
next
  case (snoc out outs)
  show ?case
    using snoc.IH
    by (auto simp: add_out_edge_edges update_conv' accepted_addresses_snoc last_value_snoc
             accepted_addresses_iff split: option.splits)
qed

lemma in_loop_edges_map:
  "map_of (edges (fold (add_in_edges h outs) ins g)) (a, b) =
     (if a \<in> accepted_addresses ins \<and> b \<in> accepted_addresses outs then Some (h, last_value outs b)
      else map_of (edges g) (a, b))"
proof (induction ins rule: rev_induct)
  case Nil
  show ?case by simp
next
  case (snoc inp ins)
  show ?case
    using snoc.IH
    by (auto simp: add_in_edges_def out_loop_edges_map accepted_addresses_snoc
             split: option.splits)
qed


lemma add_out_edge_keys:
  assumes "\<forall>b \<in> accepted_addresses [out]. (a, b) \<in> fst ` set (edges g)"
  shows "map fst (edges (add_out_edge h a out g)) = map fst (edges g)"
  using assms
  by (auto simp: add_out_edge_edges accepted_addresses_iff update_same_keys split: option.splits)

lemma out_loop_keys:
  "\<forall>b \<in> accepted_addresses outs. (a, b) \<in> fst ` set (edges g) \<Longrightarrow>
   map fst (edges (fold (add_out_edge h a) outs g)) = map fst (edges g)"
proof (induction outs arbitrary: g)
  case Nil
  show ?case by simp
next
  case (Cons out outs)
  have 1: "map fst (edges (add_out_edge h a out g)) = map fst (edges g)"
    using Cons.prems by (intro add_out_edge_keys) (auto simp: accepted_addresses_iff)
  then have "fst ` set (edges (add_out_edge h a out g)) = fst ` set (edges g)"
    by (metis set_map)
  with Cons.prems have "\<forall>b \<in> accepted_addresses outs. (a, b) \<in> fst ` set (edges (add_out_edge h a out g))"
    by (auto simp: accepted_addresses_iff)
  from Cons.IH [OF this] 1 show ?case by simp
qed

lemma in_loop_keys:
  "\<forall>a \<in> accepted_addresses ins. \<forall>b \<in> accepted_addresses outs. (a, b) \<in> fst ` set (edges g) \<Longrightarrow>
   map fst (edges (fold (add_in_edges h outs) ins g)) = map fst (edges g)"
proof (induction ins arbitrary: g)
  case Nil
  show ?case by simp
next
  case (Cons inp ins)
  have 1: "map fst (edges (add_in_edges h outs inp g)) = map fst (edges g)"
    using Cons.prems
    by (auto simp: add_in_edges_def accepted_addresses_iff intro!: out_loop_keys split: option.splits)
  then have "fst ` set (edges (add_in_edges h outs inp g)) = fst ` set (edges g)"
    by (metis set_map)
  with Cons.prems have "\<forall>a \<in> accepted_addresses ins. \<forall>b \<in> accepted_addresses outs.
      (a, b) \<in> fst ` set (edges (add_in_edges h outs inp g))"
    by (auto simp: accepted_addresses_iff)
  from Cons.IH [OF this] 1 show ?case by simp
qed

lemma out_loop_distinct:
  "distinct (map fst (edges g)) \<Longrightarrow> distinct (map fst (edges (fold (add_out_edge h a) outs g)))"
  by (induction outs arbitrary: g)
     (auto simp: add_out_edge_edges distinct_update split: option.splits)

lemma in_loop_distinct:
  "distinct (map fst (edges g)) \<Longrightarrow> distinct (map fst (edges (fold (add_in_edges h outs) ins g)))"
  by (induction ins arbitrary: g)
     (auto simp: add_in_edges_def out_loop_distinct split: option.splits)

subsection \<open>The nodes written by the loops\<close>

lemma add_typed_node_nodes:
  "nodes (add_typed_node t e g) =
     (case recipient e of None \<Rightarrow> nodes g
      | Some r \<Rightarrow> if accepted (Some r) then AList.update r (Some t) (nodes g) else nodes g)"
  by (simp add: add_typed_node_def add_node_def split: option.splits)

lemma add_typed_node_edges: "edges (add_typed_node t e g) = edges g"
  by (simp add: add_typed_node_def add_node_def split: option.splits)

lemma typed_loop_edges: "edges (fold (add_typed_node t) es g) = edges g"
  by (induction es arbitrary: g) (simp_all add: add_typed_node_edges)

lemma typed_loop_nodes_map:
  "map_of (nodes (fold (add_typed_node t) es g)) r =
     (if r \<in> accepted_addresses es then Some (Some t) else map_of (nodes g) r)"
proof (induction es rule: rev_induct)
  case Nil
  show ?case by simp
next
  case (snoc e es)
  show ?case
    using snoc.IH
    by (auto simp: add_typed_node_nodes update_conv' accepted_addresses_snoc split: option.splits)
qed

lemma typed_loop_keys:
  "accepted_addresses es \<subseteq> fst ` set (nodes g) \<Longrightarrow>
   map fst (nodes (fold (add_typed_node t) es g)) = map fst (nodes g)"
proof (induction es arbitrary: g)
  case Nil
  show ?case by simp
next
  case (Cons e es)
  have 1: "map fst (nodes (add_typed_node t e g)) = map fst (nodes g)"
    using Cons.prems
    by (auto simp: add_typed_node_nodes accepted_addresses_Cons update_same_keys split: option.splits)
  then have "fst ` set (nodes (add_typed_node t e g)) = fst ` set (nodes g)"
    by (metis set_map)
  with Cons.prems have "accepted_addresses es \<subseteq> fst ` set (nodes (add_typed_node t e g))"
    by (simp add: accepted_addresses_Cons)
  from Cons.IH [OF this] 1 show ?case by simp
qed

lemma typed_loop_distinct:
  "distinct (map fst (nodes g)) \<Longrightarrow> distinct (map fst (nodes (fold (add_typed_node t) es g)))"
  by (induction es arbitrary: g)
     (auto simp: add_typed_node_nodes distinct_update split: option.splits)

lemma ensure_node_present: "n \<in> fst ` set ns \<Longrightarrow> ensure_node n ns = ns"
  by (simp add: ensure_node_def map_of_eq_None_iff)

lemma add_edge_nodes:
  "u \<in> fst ` set (nodes g) \<Longrightarrow> v \<in> fst ` set (nodes g) \<Longrightarrow> nodes (add_edge u v h x g) = nodes g"
  by (simp add: add_edge_def ensure_node_present)

lemma out_loop_nodes:
  "a \<in> fst ` set (nodes g) \<Longrightarrow> accepted_addresses outs \<subseteq> fst ` set (nodes g) \<Longrightarrow>
   nodes (fold (add_out_edge h a) outs g) = nodes g"
proof (induction outs arbitrary: g)
  case Nil
  show ?case by simp
next
  case (Cons out outs)
  have 1: "nodes (add_out_edge h a out g) = nodes g"
  proof (cases "recipient out")
    case None
    then show ?thesis by (simp add: add_out_edge_def)
  next
    case (Some b)
    show ?thesis
    proof (cases "accepted (Some b)")
      case True
      with Some Cons.prems(2) have "b \<in> fst ` set (nodes g)"
        by (simp add: accepted_addresses_Cons)
      with Some True Cons.prems(1) show ?thesis
        by (simp add: add_out_edge_def add_edge_nodes)
    next
      case False
      with Some show ?thesis by (simp add: add_out_edge_def)
    qed
  qed
  with Cons.prems have "a \<in> fst ` set (nodes (add_out_edge h a out g))"
    "accepted_addresses outs \<subseteq> fst ` set (nodes (add_out_edge h a out g))"
    by (simp_all add: accepted_addresses_Cons)
  from Cons.IH [OF this] 1 show ?case by simp
qed

lemma in_loop_nodes:
  "accepted_addresses ins \<subseteq> fst ` set (nodes g) \<Longrightarrow>
   accepted_addresses outs \<subseteq> fst ` set (nodes g) \<Longrightarrow>
   nodes (fold (add_in_edges h outs) ins g) = nodes g"
proof (induction ins arbitrary: g)
  case Nil
  show ?case by simp
next
  case (Cons inp ins)
  have 1: "nodes (add_in_edges h outs inp g) = nodes g"
    using Cons.prems
    by (auto simp: add_in_edges_def accepted_addresses_Cons intro!: out_loop_nodes split: option.splits)
  with Cons.prems have "accepted_addresses ins \<subseteq> fst ` set (nodes (add_in_edges h outs inp g))"
    "accepted_addresses outs \<subseteq> fst ` set (nodes (add_in_edges h outs inp g))"
    by (simp_all add: accepted_addresses_Cons)
  from Cons.IH [OF this] 1 show ?case by simp
qed

subsection \<open>One transaction added to the graph\<close>

lemma add_transaction_edges_map:
  "map_of (edges (add_transaction h tx g)) (a, b) =
     (if a \<in> accepted_addresses (get_list (tx_inputs tx)) \<and>
         b \<in> accepted_addresses (get_list (tx_outputs tx))
      then Some (h, last_value (get_list (tx_outputs tx)) b)
      else map_of (edges g) (a, b))"
  by (simp add: add_transaction_def Let_def in_loop_edges_map typed_loop_edges)

lemma add_transaction_edges_distinct:
  "distinct (map fst (edges g)) \<Longrightarrow> distinct (map fst (edges (add_transaction h tx g)))"
  by (simp add: add_transaction_def Let_def in_loop_distinct typed_loop_edges)

lemma add_transaction_nodes:
  "nodes (add_transaction h tx g) =
     nodes (fold (add_typed_node ''output'') (get_list (tx_outputs tx))
             (fold (add_typed_node ''input'') (get_list (tx_inputs tx)) g))"
proof -
  let ?ins = "get_list (tx_inputs tx)" and ?outs = "get_list (tx_outputs tx)"
  let ?g2 = "fold (add_typed_node ''output'') ?outs (fold (add_typed_node ''input'') ?ins g)"
  have m: "map_of (nodes ?g2) r \<noteq> None"
    if "r \<in> accepted_addresses ?ins \<union> accepted_addresses ?outs" for r
    using that by (auto simp: typed_loop_nodes_map)
  have "accepted_addresses ?ins \<subseteq> fst ` set (nodes ?g2)"
    "accepted_addresses ?outs \<subseteq> fst ` set (nodes ?g2)"
    using m by (auto simp: map_of_eq_None_iff)
  then show ?thesis
    by (simp add: add_transaction_def Let_def in_loop_nodes)
qed

lemma add_transaction_nodes_map:
  "map_of (nodes (add_transaction h tx g)) r =
     (if r \<in> accepted_addresses (get_list (tx_outputs tx)) then Some (Some ''output'')
      else if r \<in> accepted_addresses (get_list (tx_inputs tx)) then Some (Some ''input'')
      else map_of (nodes g) r)"
  by (simp add: add_transaction_nodes typed_loop_nodes_map)

lemma add_transaction_nodes_distinct:
  "distinct (map fst (nodes g)) \<Longrightarrow> distinct (map fst (nodes (add_transaction h tx g)))"
  by (simp add: add_transaction_nodes typed_loop_distinct)

lemma add_transaction_again:
  assumes "distinct (map fst (nodes g))" "distinct (map fst (edges g))"
  shows "add_transaction h tx (add_transaction h tx g) = add_transaction h tx g"
proof -
  let ?ins = "get_list (tx_inputs tx)" and ?outs = "get_list (tx_outputs tx)"
  let ?G = "add_transaction h tx g"
  have nk: "accepted_addresses ?ins \<subseteq> fst ` set (nodes ?G)"
    "accepted_addresses ?outs \<subseteq> fst ` set (nodes ?G)"
  proof -
    have "map_of (nodes ?G) r \<noteq> None"
      if "r \<in> accepted_addresses ?ins \<union> accepted_addresses ?outs" for r
      using that by (auto simp: add_transaction_nodes_map)
    then show "accepted_addresses ?ins \<subseteq> fst ` set (nodes ?G)"
      "accepted_addresses ?outs \<subseteq> fst ` set (nodes ?G)"
      by (auto simp: map_of_eq_None_iff)
  qed
  have n1: "map fst (nodes (fold (add_typed_node ''input'') ?ins ?G)) = map fst (nodes ?G)"
    by (rule typed_loop_keys [OF nk(1)])
  then have "fst ` set (nodes (fold (add_typed_node ''input'') ?ins ?G)) = fst ` set (nodes ?G)"
    by (metis set_map)
  with nk(2) have "accepted_addresses ?outs \<subseteq> fst ` set (nodes (fold (add_typed_node ''input'') ?ins ?G))"
    by simp
  from typed_loop_keys [OF this] n1
  have nkeys: "map fst (nodes (add_transaction h tx ?G)) = map fst (nodes ?G)"
    by (simp add: add_transaction_nodes)
  have nmap: "map_of (nodes (add_transaction h tx ?G)) = map_of (nodes ?G)"
    by (rule ext) (simp add: add_transaction_nodes_map)
  have nodes_eq: "nodes (add_transaction h tx ?G) = nodes ?G"
    by (rule alist_eqI [OF add_transaction_nodes_distinct [OF add_transaction_nodes_distinct [OF assms(1)]]
          nkeys nmap])
  let ?G2 = "fold (add_typed_node ''output'') ?outs (fold (add_typed_node ''input'') ?ins ?G)"
  have e2: "edges ?G2 = edges ?G" by (simp add: typed_loop_edges)
  have "(a, b) \<in> fst ` set (edges ?G2)"
    if "a \<in> accepted_addresses ?ins" "b \<in> accepted_addresses ?outs" for a b
  proof -
    from that have "map_of (edges ?G) (a, b) \<noteq> None" by (simp add: add_transaction_edges_map)
    then show ?thesis unfolding e2 by (simp add: map_of_eq_None_iff)
  qed
  then have "\<forall>a \<in> accepted_addresses ?ins. \<forall>b \<in> accepted_addresses ?outs. (a, b) \<in> fst ` set (edges ?G2)"
    by blast
  from in_loop_keys [OF this, of h]
  have ekeys: "map fst (edges (add_transaction h tx ?G)) = map fst (edges ?G)"
    by (simp add: add_transaction_def [of h tx ?G] Let_def e2)
  have emap: "map_of (edges (add_transaction h tx ?G)) = map_of (edges ?G)"
  proof (rule ext)
    fix k :: "address \<times> address"
    obtain a b where k: "k = (a, b)" by (cases k)
    show "map_of (edges (add_transaction h tx ?G)) k = map_of (edges ?G) k"
      unfolding k by (simp add: add_transaction_edges_map)
  qed
  have edges_eq: "edges (add_transaction h tx ?G) = edges ?G"
    by (rule alist_eqI [OF add_transaction_edges_distinct [OF add_transaction_edges_distinct [OF assms(2)]]
          ekeys emap])
  from nodes_eq edges_eq show ?thesis by simp
qed

text \<open>
  C9, as the claim states it, fails: the graph is a \<open>DiGraph\<close>, which holds one edge for an
  ordered pair of addresses. The same transaction added twice leaves one edge from \<open>A\<close> to
  \<open>B\<close>, and a second transaction over the pair replaces the hash and the value of that edge.
\<close>

theorem no_parallel_edges:
  "edges (add_transaction ''h1'' tx_a_to_b (add_transaction ''h1'' tx_a_to_b empty_graph))
     = [((''A'', ''B''), (''h1'', 4))] \<and>
   edges (add_transaction ''h2'' tx_a_to_b_again (add_transaction ''h1'' tx_a_to_b empty_graph))
     = [((''A'', ''B''), (''h2'', 7))]"
  by code_simp

text \<open>
  C9, amended: for a graph whose node and edge dictionaries have unique keys,
  \<open>add_transaction\<close> keeps the keys of the edges unique (at most one edge for an ordered
  pair); it sets the edge of every pair of an accepted input address and an accepted output
  address (present, not empty, not \<open>nonstandard\<close>) to the transaction hash and the value of
  the last output with that address, and leaves every other edge as it was; and adding the
  same transaction a second time changes nothing.
\<close>

theorem add_transaction_simple_digraph:
  assumes "distinct (map fst (nodes g))" "distinct (map fst (edges g))"
  shows "distinct (map fst (edges (add_transaction tx_hash tx g))) \<and>
         (\<forall>a b. map_of (edges (add_transaction tx_hash tx g)) (a, b) =
            (if a \<in> accepted_addresses (get_list (tx_inputs tx)) \<and>
                b \<in> accepted_addresses (get_list (tx_outputs tx))
             then Some (tx_hash, last_value (get_list (tx_outputs tx)) b)
             else map_of (edges g) (a, b))) \<and>
         add_transaction tx_hash tx (add_transaction tx_hash tx g) = add_transaction tx_hash tx g"
  using add_transaction_edges_distinct [OF assms(2)] add_transaction_edges_map
    add_transaction_again [OF assms]
  by blast

theorem add_transaction_simple_digraph_witness:
  "distinct (map fst (nodes empty_graph)) \<and> distinct (map fst (edges empty_graph)) \<and>
   distinct (map fst (edges (add_transaction ''h1'' tx_a_to_b empty_graph))) \<and>
   map_of (edges (add_transaction ''h1'' tx_a_to_b empty_graph)) (''A'', ''B'') = Some (''h1'', 4) \<and>
   add_transaction ''h1'' tx_a_to_b (add_transaction ''h1'' tx_a_to_b empty_graph)
     = add_transaction ''h1'' tx_a_to_b empty_graph"
proof -
  have d: "distinct (map fst (nodes empty_graph))" "distinct (map fst (edges empty_graph))"
    by (simp_all add: empty_graph_def)
  have a: "''A'' \<in> accepted_addresses (get_list (tx_inputs tx_a_to_b))"
    "''B'' \<in> accepted_addresses (get_list (tx_outputs tx_a_to_b))"
    by (simp_all add: accepted_addresses_def tx_a_to_b_def get_list_def accepted_def)
  have v: "last_value (get_list (tx_outputs tx_a_to_b)) ''B'' = 4"
    by (simp add: last_value_def tx_a_to_b_def get_list_def get_value_def)
  from add_transaction_simple_digraph [OF d, of "''h1''" tx_a_to_b] d a v
  show ?thesis by simp
qed

subsection \<open>Cluster ids\<close>

lemma new_cluster_found_none:
  "new_cluster_found reg component flag \<Longrightarrow> c \<in> set component \<Longrightarrow> map_of reg c = None"
  by (induction component arbitrary: flag) (auto split: if_splits)

lemma assign_all_other:
  "x \<notin> set component \<Longrightarrow> map_of (assign_all cid component reg) x = map_of reg x"
  unfolding assign_all_def
  by (induction component arbitrary: reg) (auto simp: update_conv')

lemma cluster_step_keeps:
  assumes "map_of (registry s) x = Some i"
  shows "map_of (registry (cluster_step g address s)) x = Some i"
proof -
  have other: "map_of (assign_all cid component (registry s)) x = Some i"
    if "new_cluster_found (registry s) component False" for cid component
  proof -
    have "x \<notin> set component"
      using new_cluster_found_none [OF that] assms by auto
    then show ?thesis using assms by (simp add: assign_all_other)
  qed
  have "x \<noteq> address" if "map_of (registry s) address = None"
    using that assms by auto
  then show ?thesis
    using assms other by (auto simp: cluster_step_def Let_def update_conv')
qed

lemma cluster_loop_keeps:
  "map_of (registry s) x = Some i \<Longrightarrow>
   map_of (registry (fold (cluster_step g) addresses s)) x = Some i"
  by (induction addresses arbitrary: s) (auto simp: cluster_step_keeps)

lemma cluster_addresses_keeps:
  "map_of (address_clusters a) x = Some i \<Longrightarrow>
   map_of (address_clusters (snd (cluster_addresses addresses a))) x = Some i"
  by (simp add: cluster_addresses_def Let_def cluster_loop_keeps)

lemma perform_keeps:
  "map_of (address_clusters a) x = Some i \<Longrightarrow>
   map_of (address_clusters (perform c a)) x = Some i"
  by (cases c) (simp_all add: cluster_addresses_keeps analyze_bitcoin_transaction_def)

lemma session_keeps:
  "map_of (address_clusters a) x = Some i \<Longrightarrow>
   map_of (address_clusters (fold perform calls a)) x = Some i"
  by (induction calls arbitrary: a) (auto simp: perform_keeps)

lemma new_cluster_found_member:
  "m \<in> set component \<Longrightarrow> map_of reg m \<noteq> None \<Longrightarrow> \<not> new_cluster_found reg component flag"
  by (induction component arbitrary: flag) auto

lemma cluster_step_skips:
  assumes "m \<in> set (node_connected_component g address)" "map_of (registry s) m \<noteq> None"
    and "map_of (nodes g) address \<noteq> None \<or> m = address"
  shows "cluster_step g address s = s"
  using assms new_cluster_found_member [OF assms(1,2)]
  by (auto simp: cluster_step_def Let_def)

text \<open>
  C7: an address that has a cluster id keeps it through every later sequence of analysed
  transactions and clustering calls, whatever edges they add; and a step of the clustering
  loop whose component holds a member with an id (the address itself, or a member of the
  component of an address of the graph) assigns nothing: the registry, the clusters of the
  call and the next id stay as they are.
\<close>

theorem assigned_id_is_kept:
  "(map_of (address_clusters a) x = Some i \<longrightarrow>
      map_of (address_clusters (fold perform calls a)) x = Some i) \<and>
   (m \<in> set (node_connected_component g address) \<and> map_of (registry s) m \<noteq> None \<and>
    (map_of (nodes g) address \<noteq> None \<or> m = address) \<longrightarrow>
      cluster_step g address s = s)"
  using session_keeps cluster_step_skips by blast

theorem assigned_id_is_kept_witness:
  "map_of (address_clusters (fold perform [Cluster [''A'', ''B'']] new_analyzer)) ''B'' = Some 1 \<and>
   map_of (address_clusters
      (fold perform [Analyze ''h1'' tx_a_to_b, Cluster [''C'', ''A'', ''B'']]
         (fold perform [Cluster [''A'', ''B'']] new_analyzer))) ''B'' = Some 1 \<and>
   ''B'' \<in> set (node_connected_component (add_transaction ''h1'' tx_a_to_b empty_graph) ''A'') \<and>
   cluster_step (add_transaction ''h1'' tx_a_to_b empty_graph) ''A''
      \<lparr>clusters = [], cluster_id = 0, registry = [(''B'', 1)]\<rparr>
     = \<lparr>clusters = [], cluster_id = 0, registry = [(''B'', 1)]\<rparr>"
proof -
  let ?a = "fold perform [Cluster [''A'', ''B'']] new_analyzer"
  let ?g = "add_transaction ''h1'' tx_a_to_b empty_graph"
  let ?s = "\<lparr>clusters = [], cluster_id = 0, registry = [(''B'', 1)]\<rparr>"
  have 1: "map_of (address_clusters ?a) ''B'' = Some 1" by code_simp
  have 2: "''B'' \<in> set (node_connected_component ?g ''A'')" by code_simp
  have 3: "map_of (registry ?s) ''B'' \<noteq> None" by simp
  have 4: "map_of (nodes ?g) ''A'' \<noteq> None" by code_simp
  from assigned_id_is_kept [where a = ?a and x = "''B''" and i = 1
      and calls = "[Analyze ''h1'' tx_a_to_b, Cluster [''C'', ''A'', ''B'']]"
      and m = "''B''" and g = ?g and address = "''A''" and s = ?s] 1 2 3 4
  show ?thesis by blast
qed

text \<open>
  C6: the code at two clustering calls on a fresh analyzer, the first for \<open>A\<close> and the
  second for \<open>B\<close>; no transaction links the two addresses. The claim says that they
  receive distinct ids; the counter \<open>cluster_id\<close> is a local that every call starts at 0,
  and both addresses are registered under the id 0.
\<close>

theorem unrelated_addresses_share_id:
  "address_clusters (fold perform [Cluster [''A''], Cluster [''B'']] new_analyzer)
     = [(''A'', 0), (''B'', 0)]"
  by code_simp

text \<open>
  C8: the code at a transaction with an output that has no address. The normaliser names
  that output \<open>N/A (script)\<close>, the graph builder filters the name \<open>nonstandard\<close>, and
  the clustering filters nothing: the sentinel becomes a node, the endpoint of an edge and
  a member of the cluster of \<open>A\<close>.
\<close>

theorem sentinel_enters_graph:
  "map_sum id to_io_entry (normalize_vout nonstandard_vout)
     = Inr \<lparr>recipient = Some ''N/A (script)'', entry_value = Some 0\<rparr> \<and>
   add_transaction ''h1'' tx_script_output empty_graph
     = \<lparr>nodes = [(''A'', Some ''input''), (''N/A (script)'', Some ''output'')],
        edges = [((''A'', ''N/A (script)''), (''h1'', 0))]\<rparr> \<and>
   address_clusters
     (snd (cluster_addresses (all_related_addresses [tx_script_output])
            (analyze_bitcoin_transaction ''h1'' tx_script_output new_analyzer)))
     = [(''N/A (script)'', 0), (''A'', 0)]"
  by code_simp


section \<open>Properties of the privacy score\<close>

subsection \<open>Bounds of the factors and of the rounding\<close>



lemma update_bounded:
  "0 \<le> e \<Longrightarrow> e \<le> 100 \<Longrightarrow>
   \<exists>v. AList.update k e fs = AList.update k v fs \<and> 0 \<le> v \<and> v \<le> (100::rat)"
  by blast

lemma address_block_factors:
  "\<exists>v. factors (address_block u t r) = AList.update ''address_diversity'' v (factors r)
       \<and> 0 \<le> v \<and> v \<le> 100"
proof -
  have "0 \<le> reuse_ratio u" by (simp add: reuse_ratio_def)
  then show ?thesis by (simp add: address_block_def Let_def update_bounded)
qed

lemma regular_pattern_bounds: "0 \<le> regular_pattern ivs \<and> regular_pattern ivs \<le> 1"
proof -
  have "length [interval \<leftarrow> ivs. \<bar>of_int interval - avg_interval ivs\<bar> < 3600] \<le> length ivs"
    by (rule length_filter_le)
  then have "(of_nat (length [interval \<leftarrow> ivs. \<bar>of_int interval - avg_interval ivs\<bar> < 3600]) :: rat)
      \<le> of_nat (length ivs)" by (simp only: of_nat_le_iff)
  then show ?thesis
    unfolding regular_pattern_def by (simp add: divide_le_eq_1)
qed

lemma timing_block_factors:
  "\<exists>v. factors (timing_block txs r) = AList.update ''timing_randomness'' v (factors r)
       \<and> 0 \<le> v \<and> v \<le> 100"
  using regular_pattern_bounds [of "intervals_of (sort (timestamps_of txs))"]
  by (simp add: timing_block_def Let_def update_bounded)

lemma amount_block_factors:
  "\<exists>v. factors (amount_block amounts r) = AList.update ''amount_diversity'' v (factors r)
       \<and> 0 \<le> v \<and> v \<le> 100"
proof -
  have "(0::rat) \<le> of_nat (round_amounts amounts) / of_nat (length amounts)" by simp
  then show ?thesis by (simp add: amount_block_def Let_def update_bounded)
qed

lemma structure_block_factors:
  "\<exists>v. factors (structure_block txs r) = AList.update ''transaction_structure'' v (factors r)
       \<and> 0 \<le> v \<and> v \<le> 100"
proof -
  have "0 \<le> simple_tx_ratio txs" by (simp add: simple_tx_ratio_def)
  then show ?thesis by (simp add: structure_block_def update_bounded)
qed

lemma script_block_factors:
  "\<exists>v. factors (script_block txs r) = AList.update ''script_diversity'' v (factors r)
       \<and> 0 \<le> v \<and> v \<le> 100"
  by (simp add: script_block_def Let_def update_bounded)

lemma size_block_factors:
  "\<exists>v. factors (size_block txs r) = AList.update ''size_consistency'' v (factors r)
       \<and> 0 \<le> v \<and> v \<le> 100"
  by (simp add: size_block_def Let_def update_bounded)


lemma scan_inputs_returns:
  "(\<exists>u'. scan_inputs ins u = Inr u') \<longleftrightarrow> (\<forall>inp \<in> set ins. sender inp \<noteq> None)"
  by (induction ins arbitrary: u) (auto split: option.splits)

lemma scan_outputs_returns:
  "(\<exists>u'. scan_outputs outs u = Inr u') \<longleftrightarrow> (\<forall>out \<in> set outs. out_recipient out \<noteq> None)"
  by (induction outs arbitrary: u) (auto split: option.splits)

lemma output_values_returns:
  "(\<exists>vs. output_values outs = Inr vs) \<longleftrightarrow> (\<forall>out \<in> set outs. out_value out \<noteq> None)"
  by (induction outs) (auto split: option.splits sum.splits)

lemma scan_transactions_returns:
  "(\<exists>u'. scan_transactions txs u = Inr u') \<longleftrightarrow>
   (\<forall>tx \<in> set txs. (\<forall>inp \<in> set (get_list (inputs tx)). sender inp \<noteq> None) \<and>
                      (\<forall>out \<in> set (get_list (outputs tx)). out_recipient out \<noteq> None))"
proof (induction txs arbitrary: u)
  case Nil
  show ?case by simp
next
  case (Cons tx rest)
  let ?I = "\<forall>inp \<in> set (get_list (inputs tx)). sender inp \<noteq> None"
  let ?O = "\<forall>out \<in> set (get_list (outputs tx)). out_recipient out \<noteq> None"
  have i: "(\<exists>u1. (case inputs tx of None \<Rightarrow> Inr u | Some ins \<Rightarrow> scan_inputs ins u) = Inr u1) \<longleftrightarrow> ?I"
    using scan_inputs_returns [of _ u] by (cases "inputs tx") (simp_all add: get_list_def)
  have o: "(\<exists>u2. (case outputs tx of None \<Rightarrow> Inr u1 | Some outs \<Rightarrow> scan_outputs outs u1) = Inr u2) \<longleftrightarrow> ?O"
    for u1
    using scan_outputs_returns [of _ u1] by (cases "outputs tx") (simp_all add: get_list_def)
  show ?case
  proof (cases "case inputs tx of None \<Rightarrow> Inr u | Some ins \<Rightarrow> scan_inputs ins u")
    case (Inl e)
    with i have "\<not> ?I" by auto
    with Inl show ?thesis by auto
  next
    case (Inr u1)
    with i have I: ?I by auto
    show ?thesis
    proof (cases "case outputs tx of None \<Rightarrow> Inr u1 | Some outs \<Rightarrow> scan_outputs outs u1")
      case (Inl e)
      with o [of u1] have "\<not> ?O" by auto
      with Inl Inr show ?thesis by auto
    next
      case u2: (Inr u2)
      with o [of u1] have O: ?O by auto
      from Inr u2 I O Cons.IH [of u2] show ?thesis by simp
    qed
  qed
qed

lemma collect_amounts_returns:
  "(\<exists>am. collect_amounts txs acc = Inr am) \<longleftrightarrow>
   (\<forall>tx \<in> set txs. \<forall>out \<in> set (get_list (outputs tx)). out_value out \<noteq> None)"
proof (induction txs arbitrary: acc)
  case Nil
  show ?case by simp
next
  case (Cons tx rest)
  show ?case
  proof (cases "outputs tx")
    case None
    then show ?thesis using Cons.IH [of acc] by (simp add: get_list_def)
  next
    case (Some outs)
    show ?thesis
    proof (cases "output_values outs")
      case (Inl e)
      with output_values_returns [of outs] have "\<not> (\<forall>out \<in> set outs. out_value out \<noteq> None)" by auto
      with Inl Some show ?thesis by (auto simp: get_list_def)
    next
      case (Inr vs)
      with output_values_returns [of outs] have "\<forall>out \<in> set outs. out_value out \<noteq> None" by auto
      with Inr Some Cons.IH [of "acc @ vs"] show ?thesis by (simp add: get_list_def)
    qed
  qed
qed

lemma six_factors:
  "\<exists>v1 v2 v3 v4 v5 v6.
     factors (size_block txs (script_block txs (structure_block txs (amount_block am
        (timing_block txs (address_block u t \<lparr>factors = [], recommendations = [], details = []\<rparr>))))))
     = [(''address_diversity'', v1), (''timing_randomness'', v2), (''amount_diversity'', v3),
        (''transaction_structure'', v4), (''script_diversity'', v5), (''size_consistency'', v6)]
     \<and> 0 \<le> v1 \<and> v1 \<le> 100 \<and> 0 \<le> v2 \<and> v2 \<le> 100 \<and> 0 \<le> v3 \<and> v3 \<le> 100
     \<and> 0 \<le> v4 \<and> v4 \<le> 100 \<and> 0 \<le> v5 \<and> v5 \<le> 100 \<and> 0 \<le> v6 \<and> v6 \<le> 100"
proof -
  let ?r0 = "\<lparr>factors = [], recommendations = [], details = []\<rparr>"
  let ?r1 = "address_block u t ?r0"
  let ?r2 = "timing_block txs ?r1"
  let ?r3 = "amount_block am ?r2"
  let ?r4 = "structure_block txs ?r3"
  let ?r5 = "script_block txs ?r4"
  obtain v1 where 1: "factors ?r1 = AList.update ''address_diversity'' v1 (factors ?r0)"
    and b1: "0 \<le> v1" "v1 \<le> 100" using address_block_factors by blast
  obtain v2 where 2: "factors ?r2 = AList.update ''timing_randomness'' v2 (factors ?r1)"
    and b2: "0 \<le> v2" "v2 \<le> 100" using timing_block_factors by blast
  obtain v3 where 3: "factors ?r3 = AList.update ''amount_diversity'' v3 (factors ?r2)"
    and b3: "0 \<le> v3" "v3 \<le> 100" using amount_block_factors by blast
  obtain v4 where 4: "factors ?r4 = AList.update ''transaction_structure'' v4 (factors ?r3)"
    and b4: "0 \<le> v4" "v4 \<le> 100" using structure_block_factors by blast
  obtain v5 where 5: "factors ?r5 = AList.update ''script_diversity'' v5 (factors ?r4)"
    and b5: "0 \<le> v5" "v5 \<le> 100" using script_block_factors by blast
  obtain v6 where 6: "factors (size_block txs ?r5) = AList.update ''size_consistency'' v6 (factors ?r5)"
    and b6: "0 \<le> v6" "v6 \<le> 100" using size_block_factors by blast
  have "factors (size_block txs ?r5)
      = [(''address_diversity'', v1), (''timing_randomness'', v2), (''amount_diversity'', v3),
        (''transaction_structure'', v4), (''script_diversity'', v5), (''size_consistency'', v6)]"
    unfolding 6 5 4 3 2 1 by simp
  with b1 b2 b3 b4 b5 b6 show ?thesis by blast
qed

lemma weighted_sum_six:
  "weighted_sum [(''address_diversity'', v1), (''timing_randomness'', v2), (''amount_diversity'', v3),
        (''transaction_structure'', v4), (''script_diversity'', v5), (''size_consistency'', v6)] 0
   = Inr (v1 * (3 / 10) + v2 * (2 / 10) + v3 * (2 / 10) + v4 * (15 / 100) + v5 * (1 / 10) + v6 * (5 / 100))"
  by (simp add: weights_def)

subsection \<open>When the call returns, and what it returns\<close>

lemma intervals_of_zip: "intervals_of ts = successive_intervals ts"
  unfolding intervals_of_def successive_intervals_def
  by (rule nth_equalityI) (auto simp: nth_tl)

lemma regular_pattern_ratio:
  "regular_pattern (intervals_of (sort ts)) = regular_ratio ts"
  by (simp add: regular_pattern_def regular_ratio_def avg_interval_def intervals_of_zip Let_def)

lemma calc_returns_iff:
  "(\<exists>r. calculate_privacy_score txs t = Inr r) \<longleftrightarrow> entries_complete txs"
proof (cases "txs = []")
  case True
  then show ?thesis by (simp add: calculate_privacy_score_def entries_complete_def)
next
  case False
  let ?u0 = "\<lparr>unique_addresses = [], total_interactions = 0, address_usage = []\<rparr>"
  have ec: "entries_complete txs \<longleftrightarrow>
      (\<exists>u. scan_transactions txs ?u0 = Inr u) \<and> (\<exists>am. collect_amounts txs [] = Inr am)"
    unfolding scan_transactions_returns collect_amounts_returns entries_complete_def by blast
  show ?thesis
  proof (cases "scan_transactions txs ?u0")
    case (Inl e)
    with False ec show ?thesis by (simp add: calculate_privacy_score_def)
  next
    case (Inr u)
    show ?thesis
    proof (cases "collect_amounts txs []")
      case (Inl e)
      with False Inr ec show ?thesis by (simp add: calculate_privacy_score_def Let_def)
    next
      case am: (Inr am)
      obtain v1 v2 v3 v4 v5 v6 where
        "factors (size_block txs (script_block txs (structure_block txs (amount_block am
          (timing_block txs (address_block u t \<lparr>factors = [], recommendations = [], details = []\<rparr>))))))
         = [(''address_diversity'', v1), (''timing_randomness'', v2), (''amount_diversity'', v3),
            (''transaction_structure'', v4), (''script_diversity'', v5), (''size_consistency'', v6)]"
        using six_factors [of txs am u t] by blast
      with False Inr am ec show ?thesis
        by (simp add: calculate_privacy_score_def Let_def weighted_sum_six del: weighted_sum.simps)
    qed
  qed
qed



lemma other_key:
  "\<exists>v. fs' = AList.update k v fs \<and> P v \<Longrightarrow> k \<noteq> k' \<Longrightarrow> map_of fs' k' = map_of fs k'"
  by (auto simp: update_conv')

lemma timing_block_value:
  "map_of (factors (timing_block txs r)) ''timing_randomness'' =
     Some (if length (timestamps_of txs) < 2 then 50
           else 100 * (1 - regular_ratio (timestamps_of txs)))"
proof (cases "length (timestamps_of txs) < 2")
  case True
  then have "\<not> Suc 0 < length (timestamps_of txs)" by simp
  with True show ?thesis by (simp add: timing_block_def Let_def update_conv')
next
  case False
  then have "Suc 0 < length (timestamps_of txs)" by simp
  with False show ?thesis
    by (simp add: timing_block_def Let_def update_conv' regular_pattern_ratio algebra_simps)
qed


subsection \<open>The claims\<close>



text \<open>
  C2: for the empty list of transactions and any target address the result is exactly
  \<open>{score: 0, factors: {}, recommendations: [], details: {}}\<close>.
\<close>

theorem empty_transactions_result:
  "calculate_privacy_score [] target =
     Inr \<lparr>factors = [], recommendations = [], details = [], score = 0\<rparr>"
  by (simp add: calculate_privacy_score_def)




text \<open>
  C4: the code at the transaction with exactly one input and exactly two outputs, as the
  only transaction. The claim says the factor \<open>transaction_structure\<close> is 100; the code
  counts inputs and outputs from the keys \<open>input_count\<close> and \<open>output_count\<close>, which the
  record does not have, and gives 20.
\<close>

theorem one_input_two_outputs_structure:
  "factor_value (calculate_privacy_score [tx_one_in_two_out] ''A'') ''transaction_structure'' = Some 20"
  by code_simp

text \<open>
  C5, as the claim states it, fails: two transactions with the same timestamp hold a single
  distinct timestamp, and the factor \<open>timing_randomness\<close> is 0, not 50.
\<close>

theorem same_timestamp_counterexample:
  "length (remdups (timestamps_of [tx_one_in_two_out, tx_one_in_two_out])) < 2 \<and>
   factor_value (calculate_privacy_score [tx_one_in_two_out, tx_one_in_two_out] ''A'')
     ''timing_randomness'' = Some 0"
  by code_simp

text \<open>
  C5, amended: the factor \<open>timing_randomness\<close> is 50 when fewer than two transactions carry
  a timestamp (one that is present and not 0); otherwise it is 100 times (1 - regular ratio),
  the regular ratio being the fraction of the successive intervals between the sorted
  timestamps, equal timestamps included, that lie less than 3600 from the mean interval.
\<close>

theorem timing_randomness_value:
  assumes "transactions \<noteq> []" "calculate_privacy_score transactions target = Inr r"
  shows "map_of (factors r) ''timing_randomness'' =
     Some (if length (timestamps_of transactions) < 2 then 50
           else 100 * (1 - regular_ratio (timestamps_of transactions)))"
proof -
  let ?u0 = "\<lparr>unique_addresses = [], total_interactions = 0, address_usage = []\<rparr>"
  from assms obtain u where u: "scan_transactions transactions ?u0 = Inr u"
    by (auto simp: calculate_privacy_score_def split: sum.splits)
  from assms u obtain am where am: "collect_amounts transactions [] = Inr am"
    by (auto simp: calculate_privacy_score_def Let_def split: sum.splits)
  let ?r2 = "timing_block transactions (address_block u target \<lparr>factors = [], recommendations = [], details = []\<rparr>)"
  let ?r3 = "amount_block am ?r2"
  let ?r4 = "structure_block transactions ?r3"
  let ?r5 = "script_block transactions ?r4"
  let ?r6 = "size_block transactions ?r5"
  from assms u am have "factors r = factors ?r6"
    by (auto simp: calculate_privacy_score_def Let_def split: sum.splits)
  then have "map_of (factors r) ''timing_randomness'' = map_of (factors ?r6) ''timing_randomness''"
    by simp
  also have "\<dots> = map_of (factors ?r5) ''timing_randomness''"
    by (rule other_key [OF size_block_factors]) simp
  also have "\<dots> = map_of (factors ?r4) ''timing_randomness''"
    by (rule other_key [OF script_block_factors]) simp
  also have "\<dots> = map_of (factors ?r3) ''timing_randomness''"
    by (rule other_key [OF structure_block_factors]) simp
  also have "\<dots> = map_of (factors ?r2) ''timing_randomness''"
    by (rule other_key [OF amount_block_factors]) simp
  finally show ?thesis by (simp only: timing_block_value)
qed

theorem timing_randomness_value_witness:
  "txs_spread \<noteq> [] \<and>
   (\<exists>r. calculate_privacy_score txs_spread ''A'' = Inr r \<and>
        map_of (factors r) ''timing_randomness'' = Some 100)"
proof -
  have n: "txs_spread \<noteq> []" by (simp add: txs_spread_def)
  have "entries_complete txs_spread"
    by (simp add: entries_complete_def txs_spread_def tx_one_in_two_out_def get_list_def)
  then obtain r where r: "calculate_privacy_score txs_spread ''A'' = Inr r"
    using calc_returns_iff by blast
  have v: "(if length (timestamps_of txs_spread) < 2 then 50
            else 100 * (1 - regular_ratio (timestamps_of txs_spread))) = 100"
    by code_simp
  from timing_randomness_value [OF n r] v r n show ?thesis by simp
qed


end
